theory Spec2Isabelle
  imports Main "HOL-Library.Word"
begin

unbundle bit_operations_syntax

section \<open>The MIDI stream parser of hardware/midi/midi.h\<close>

text \<open>
  The parser is the class template \<open>MidiStreamParser<Device>\<close> of midi.h. Its fields
  are bytes (\<open>uint8_t\<close>), modelled as 8-bit words. The template argument \<open>Device\<close> is a
  set of static callbacks; a call of one of them is recorded as a value of type
  \<open>callback\<close>, and a run of the parser returns the callbacks it made, in order. The one
  function of the device that returns a value, \<open>CheckChannel\<close>, is a parameter of the
  model.
\<close>

type_synonym u8 = "8 word"
type_synonym u16 = "16 word"

datatype callback =
    NoteOn u8 u8 u8
  | NoteOff u8 u8 u8
  | Aftertouch u8 u8 u8
  | Aftertouch_channel u8 u8
  | ControlChange u8 u8 u8
  | ProgramChange u8 u8
  | PitchBend u8 u16
  | AllSoundOff u8
  | ResetAllControllers u8
  | LocalControl u8 u8
  | AllNotesOff u8
  | OmniModeOff u8
  | OmniModeOn u8
  | MonoModeOn u8 u8
  | PolyModeOn u8
  | SysExStart
  | SysExByte u8
  | SysExEnd
  | BozoByte u8
  | Clock
  | Start
  | Continue
  | Stop
  | ActiveSensing
  | Reset

text \<open>\<open>MidiDevice::CheckChannel\<close>, the default of the interface: every channel is accepted.\<close>

definition MidiDevice_CheckChannel :: "u8 \<Rightarrow> u8" where
  "MidiDevice_CheckChannel channel = 1"

text \<open>
  The fields of the class, named as in the source without the trailing underscore
  (\<open>running_status_\<close>, \<open>data_[3]\<close>, \<open>data_size_\<close>, \<open>expected_data_size_\<close>).
\<close>

record parser =
  running_status :: u8
  data :: "u8 list"
  data_size :: u8
  expected_data_size :: u8

text \<open>
  The constructor sets the three scalar fields and leaves the array \<open>data_[3]\<close> as it
  finds it: the three bytes found there are the arguments of the model.
\<close>

definition MidiStreamParser :: "u8 \<Rightarrow> u8 \<Rightarrow> u8 \<Rightarrow> parser" where
  "MidiStreamParser m0 m1 m2 =
     \<lparr>running_status = 0, data = [m0, m1, m2], data_size = 0, expected_data_size = 0\<rparr>"

text \<open>A write past the end of \<open>data_\<close> is the one way a call can go wrong.\<close>

datatype fault = OutOfBounds

subsection \<open>MessageReceived\<close>

text \<open>The inner \<open>switch (data_[0])\<close> of the case \<open>0xb0\<close>.\<close>

definition control_dispatch :: "u8 \<Rightarrow> u8 \<Rightarrow> u8 \<Rightarrow> callback list" where
  "control_dispatch lo d0 d1 =
     (if d0 = 0x78 then [AllSoundOff lo]
      else if d0 = 0x79 then [ResetAllControllers lo]
      else if d0 = 0x7a then [LocalControl lo d1]
      else if d0 = 0x7b then [AllNotesOff lo]
      else if d0 = 0x7c then [OmniModeOff lo]
      else if d0 = 0x7d then [OmniModeOn lo]
      else if d0 = 0x7e then [MonoModeOn lo d1]
      else if d0 = 0x7f then [PolyModeOn lo]
      else [ControlChange lo d0 d1])"

text \<open>The inner \<open>switch (lo)\<close> of the case \<open>0xf0\<close>; it has no case for \<open>0xd\<close>.\<close>

definition system_dispatch :: "u8 \<Rightarrow> u8 \<Rightarrow> callback list" where
  "system_dispatch lo d0 =
     (if lo = 0x0 then [SysExByte d0]
      else if lo = 0x1 \<or> lo = 0x2 \<or> lo = 0x3 \<or> lo = 0x4 \<or> lo = 0x5 \<or> lo = 0x6 then []
      else if lo = 0x7 then [SysExEnd]
      else if lo = 0x8 then [Clock]
      else if lo = 0x9 then []
      else if lo = 0xa then [Start]
      else if lo = 0xb then [Continue]
      else if lo = 0xc then [Stop]
      else if lo = 0xe then [ActiveSensing]
      else if lo = 0xf then [Reset]
      else [])"

text \<open>The outer \<open>switch (hi)\<close>.\<close>

definition dispatch :: "u8 \<Rightarrow> u8 \<Rightarrow> u8 \<Rightarrow> u8 \<Rightarrow> callback list" where
  "dispatch hi lo d0 d1 =
     (if hi = 0x80 then [NoteOff lo d0 d1]
      else if hi = 0x90 then (if d1 \<noteq> 0 then [NoteOn lo d0 d1] else [NoteOff lo d0 0])
      else if hi = 0xa0 then [Aftertouch lo d0 d1]
      else if hi = 0xb0 then control_dispatch lo d0 d1
      else if hi = 0xc0 then [ProgramChange lo d0]
      else if hi = 0xd0 then [Aftertouch_channel lo d0]
      else if hi = 0xe0 then [PitchBend lo (push_bit 7 (ucast d1 :: u16) + ucast d0)]
      else if hi = 0xf0 then system_dispatch lo d0
      else [])"

text \<open>
  \<open>MessageReceived\<close> changes no field; its result is the list of the callbacks it makes.
  It reads \<open>data_[0]\<close> and \<open>data_[1]\<close>, which are inside the array.
\<close>

definition MessageReceived :: "(u8 \<Rightarrow> u8) \<Rightarrow> parser \<Rightarrow> u8 \<Rightarrow> callback list" where
  "MessageReceived CheckChannel s status =
     (let bozo = (if status = 0 then [BozoByte (data s ! 0)] else []);
          hi = status AND 0xf0;
          lo = status AND 0x0f
      in if hi \<noteq> 0xf0 \<and> CheckChannel lo = 0 then bozo
         else bozo @ dispatch hi lo (data s ! 0) (data s ! 1))"

subsection \<open>PushByte\<close>

text \<open>The \<open>switch (hi)\<close> of \<open>PushByte\<close>, with the default of 1 set before it.\<close>

definition status_data_size :: "u8 \<Rightarrow> u8 \<Rightarrow> u8" where
  "status_data_size hi lo =
     (if hi = 0x80 \<or> hi = 0x90 \<or> hi = 0xa0 \<or> hi = 0xb0 then 2
      else if hi = 0xc0 \<or> hi = 0xd0 then 1
      else if hi = 0xe0 then 2
      else if hi = 0xf0 then (if lo > 0 \<and> lo < 3 then 2 else if lo \<ge> 4 then 0 else 1)
      else 1)"

text \<open>The branch \<open>byte >= 0x80\<close>: a status byte.\<close>

definition status_byte :: "parser \<Rightarrow> u8 \<Rightarrow> parser \<times> callback list" where
  "status_byte s byte =
     (let hi = byte AND 0xf0;
          lo = byte AND 0x0f;
          s1 = s\<lparr>data_size := 0, expected_data_size := status_data_size hi lo\<rparr>;
          e1 = (if running_status s1 = 0xf0 then [SysExEnd] else []);
          s2 = s1\<lparr>running_status := byte\<rparr>;
          e2 = (if running_status s2 = 0xf0 then [SysExStart] else [])
      in (s2, e1 @ e2))"

text \<open>The branch of a data byte: \<open>data_[data_size_++] = byte\<close>.\<close>

definition data_byte :: "parser \<Rightarrow> u8 \<Rightarrow> fault + parser" where
  "data_byte s byte =
     (if unat (data_size s) < length (data s)
      then Inr (s\<lparr>data := (data s)[unat (data_size s) := byte],
                  data_size := data_size s + 1\<rparr>)
      else Inl OutOfBounds)"

text \<open>The last \<open>if\<close> of \<open>PushByte\<close>, run after either branch; \<open>e\<close> holds the callbacks made so far.\<close>

definition complete :: "(u8 \<Rightarrow> u8) \<Rightarrow> parser \<Rightarrow> callback list \<Rightarrow> parser \<times> callback list \<times> u8" where
  "complete CheckChannel s e =
     (if data_size s \<ge> expected_data_size s then
        (let v = running_status s;
             e' = MessageReceived CheckChannel s (running_status s);
             s1 = s\<lparr>data_size := 0\<rparr>;
             s2 = (if running_status s1 > 0xf0
                   then s1\<lparr>expected_data_size := 0, running_status := 0\<rparr> else s1)
         in (s2, e @ e', v))
      else (s, e, 0))"

definition PushByte :: "(u8 \<Rightarrow> u8) \<Rightarrow> parser \<Rightarrow> u8 \<Rightarrow> fault + parser \<times> callback list \<times> u8" where
  "PushByte CheckChannel s byte =
     (if byte \<ge> 0xf8 then Inr (s, MessageReceived CheckChannel s byte, byte)
      else if byte \<ge> 0x80 then
        (case status_byte s byte of (s', e) \<Rightarrow> Inr (complete CheckChannel s' e))
      else
        (case data_byte s byte of
           Inl f \<Rightarrow> Inl f
         | Inr s' \<Rightarrow> Inr (complete CheckChannel s' [])))"

text \<open>
  A stream of bytes, pushed one at a time: the final parser, all callbacks in order, and
  the value each call returned.
\<close>

fun feed :: "(u8 \<Rightarrow> u8) \<Rightarrow> parser \<Rightarrow> u8 list \<Rightarrow> fault + parser \<times> callback list \<times> u8 list" where
  "feed CheckChannel s [] = Inr (s, [], [])"
| "feed CheckChannel s (b # bs) =
     (case PushByte CheckChannel s b of
        Inl f \<Rightarrow> Inl f
      | Inr (s', e, v) \<Rightarrow>
          (case feed CheckChannel s' bs of
             Inl f \<Rightarrow> Inl f
           | Inr (s'', es, vs) \<Rightarrow> Inr (s'', e @ es, v # vs)))"

text \<open>The states a parser can be in: as constructed, or after a call that returned.\<close>

inductive reachable :: "(u8 \<Rightarrow> u8) \<Rightarrow> parser \<Rightarrow> bool" for CheckChannel where
  constructed: "reachable CheckChannel (MidiStreamParser m0 m1 m2)"
| pushed: "reachable CheckChannel s \<Longrightarrow> PushByte CheckChannel s byte = Inr (s', e, v)
           \<Longrightarrow> reachable CheckChannel s'"

text \<open>
  What holds of the fields between two calls: the array has its three cells, the expected
  count is at most 2, the received count is 0 or below the expected one, and the running
  status is either 0 (with nothing expected) or a status byte below \<open>0xf8\<close> together with
  the count that \<open>PushByte\<close> derives from it.
\<close>

definition parser_inv :: "parser \<Rightarrow> bool" where
  "parser_inv s \<longleftrightarrow>
     length (data s) = 3 \<and> expected_data_size s \<le> 2 \<and>
     (data_size s = 0 \<or> data_size s < expected_data_size s) \<and>
     (if running_status s = 0 then expected_data_size s = 0
      else 0x80 \<le> running_status s \<and> running_status s < 0xf8 \<and>
           expected_data_size s =
             status_data_size (running_status s AND 0xf0) (running_status s AND 0x0f))"

section \<open>Evaluation and bytes\<close>

lemmas eval_defs = PushByte_def complete_def data_byte_def status_byte_def status_data_size_def
  MessageReceived_def dispatch_def system_dispatch_def control_dispatch_def MidiStreamParser_def
  MidiDevice_CheckChannel_def Let_def word_le_nat_alt word_less_nat_alt

lemma data_byte_class: "(b :: u8) < 0x80 \<Longrightarrow> \<not> 0x80 \<le> b \<and> \<not> 0xf8 \<le> b"
  by (simp add: word_le_nat_alt word_less_nat_alt)

lemma status_class: "(0x80::u8) \<le> b \<Longrightarrow> b < 0xf8 \<Longrightarrow> \<not> 0xf8 \<le> b"
  by simp

lemma sys_cases:
  assumes "(0xf0::u8) \<le> b" "b < 0xf8"
  shows "b = 0xf0 \<or> b = 0xf1 \<or> b = 0xf2 \<or> b = 0xf3 \<or>
         b = 0xf4 \<or> b = 0xf5 \<or> b = 0xf6 \<or> b = 0xf7"
  using assms unfolding word_unat_eq_iff word_le_nat_alt word_less_nat_alt by simp arith

lemma realtime_cases:
  assumes "(0xf8::u8) \<le> b"
  shows "b = 0xf8 \<or> b = 0xf9 \<or> b = 0xfa \<or> b = 0xfb \<or>
         b = 0xfc \<or> b = 0xfd \<or> b = 0xfe \<or> b = 0xff"
proof -
  have "unat b < 256" using unsigned_less[of b, where ?'a = nat] by simp
  then show ?thesis
    using assms unfolding word_unat_eq_iff word_le_nat_alt word_less_nat_alt by simp arith
qed

lemma hi_not_system: "(b::u8) < 0xf0 \<Longrightarrow> b AND 0xf0 \<noteq> 0xf0"
proof
  assume a: "b < 0xf0" "b AND 0xf0 = 0xf0"
  have "b AND 0xf0 \<le> b" by (rule word_and_le2)
  with a show False by simp
qed

lemma note_status:
  assumes "(st::u8) AND 0xf0 = 0x90"
  shows "0x80 \<le> st \<and> \<not> 0xf8 \<le> st \<and> \<not> 0xf0 < st \<and> st \<noteq> 0 \<and> st \<noteq> 0xf0"
proof -
  have "st AND 0xf0 \<le> st" by (rule word_and_le2)
  with assms have a: "0x90 \<le> st" by simp
  then have b: "0x80 \<le> st" by (simp add: word_le_nat_alt)
  have c: "\<not> 0xf0 \<le> st"
  proof
    assume h: "0xf0 \<le> st"
    show False
    proof (cases "st < 0xf8")
      case True
      from sys_cases[OF h True] assms show False by auto
    next
      case False
      then have "0xf8 \<le> st" by simp
      from realtime_cases[OF this] assms show False by auto
    qed
  qed
  then have "\<not> 0xf8 \<le> st" "\<not> 0xf0 < st" "st \<noteq> 0xf0"
    by (auto simp: word_le_nat_alt word_less_nat_alt)
  moreover from b have "st \<noteq> 0" by auto
  ultimately show ?thesis using b by simp
qed

lemma channel_status:
  assumes "(st::u8) AND 0xf0 = h" and "0x80 \<le> h" and "h \<noteq> 0xf0"
  shows "0x80 \<le> st \<and> \<not> 0xf8 \<le> st \<and> \<not> 0xf0 < st \<and> st \<noteq> 0 \<and> st \<noteq> 0xf0"
proof -
  have "st AND 0xf0 \<le> st" by (rule word_and_le2)
  with assms have b: "0x80 \<le> st" by simp
  have c: "\<not> 0xf0 \<le> st"
  proof
    assume g: "0xf0 \<le> st"
    show False
    proof (cases "st < 0xf8")
      case True
      from sys_cases[OF g True] assms(1,3) show False by auto
    next
      case False
      then have "0xf8 \<le> st" by simp
      from realtime_cases[OF this] assms(1,3) show False by auto
    qed
  qed
  then have "\<not> 0xf8 \<le> st" "\<not> 0xf0 < st" "st \<noteq> 0xf0"
    by (auto simp: word_le_nat_alt word_less_nat_alt)
  moreover from b have "st \<noteq> 0" by auto
  ultimately show ?thesis using b by simp
qed

section \<open>The callbacks of one call\<close>

lemma MessageReceived_length: "length (MessageReceived chk s st) \<le> 1"
  by (cases "st = 0")
     (simp_all add: MessageReceived_def dispatch_def system_dispatch_def control_dispatch_def Let_def)

lemma realtime_dispatch_indep:
  assumes "0xf8 \<le> byte"
  shows "MessageReceived chk s byte = MessageReceived chk' s' byte"
  using realtime_cases[OF assms]
  by (elim disjE) (simp_all add: MessageReceived_def dispatch_def system_dispatch_def)

lemma status_data_size_le: "status_data_size hi lo \<le> 2"
  by (simp add: status_data_size_def)

lemma status_data_size_cases:
  "status_data_size hi lo = 0 \<or> status_data_size hi lo = 1 \<or> status_data_size hi lo = 2"
  by (simp add: status_data_size_def)

lemma status_no_data:
  assumes "(0x80::u8) \<le> b" "b < 0xf8"
  shows "status_data_size (b AND 0xf0) (b AND 0x0f) = 0 \<longleftrightarrow> 0xf4 \<le> b"
proof (cases "b < 0xf0")
  case True
  from hi_not_system[OF this] have "status_data_size (b AND 0xf0) (b AND 0x0f) \<noteq> 0"
    by (simp add: status_data_size_def)
  moreover from True have "\<not> 0xf4 \<le> b" by (simp add: word_le_nat_alt word_less_nat_alt)
  ultimately show ?thesis by simp
next
  case False
  then have "0xf0 \<le> b" by simp
  from sys_cases[OF this assms(2)] show ?thesis
    by (elim disjE) (simp_all add: status_data_size_def)
qed

lemma status_two_data:
  assumes "(0x80::u8) \<le> st" "st < 0xf8"
  shows "status_data_size (st AND 0xf0) (st AND 0x0f) = 2 \<longleftrightarrow>
         st AND 0xf0 = 0x80 \<or> st AND 0xf0 = 0x90 \<or> st AND 0xf0 = 0xa0 \<or>
         st AND 0xf0 = 0xb0 \<or> st AND 0xf0 = 0xe0 \<or> st = 0xf1 \<or> st = 0xf2"
proof (cases "st < 0xf0")
  case True
  then have "st \<noteq> 0xf1" "st \<noteq> 0xf2" by auto
  with hi_not_system[OF True] show ?thesis by (simp add: status_data_size_def)
next
  case False
  then have "0xf0 \<le> st" by simp
  from sys_cases[OF this assms(2)] show ?thesis
    by (elim disjE) (simp_all add: status_data_size_def)
qed

lemma complete_calls:
  assumes "complete chk s e0 = (s', e, v)"
  shows "length e \<le> length e0 + 1"
  using assms MessageReceived_length[of chk s "running_status s"]
  by (auto simp: complete_def Let_def split: if_splits)

lemma PushByte_calls:
  assumes "PushByte chk s byte = Inr (s', e, v)"
  shows "(\<not> (running_status s = 0xf0 \<and> (byte = 0xf0 \<or> byte = 0xf7)) \<longrightarrow> length e \<le> 1) \<and>
         (running_status s = 0xf0 \<and> byte = 0xf0 \<longrightarrow> e = [SysExEnd, SysExStart])"
proof -
  consider "0xf8 \<le> byte" | "0x80 \<le> byte" "byte < 0xf8" | "byte < 0x80" by fastforce
  then show ?thesis
  proof cases
    case 1
    then show ?thesis using assms MessageReceived_length[of chk s byte]
      by (auto simp: PushByte_def)
  next
    case 2
    note nr = status_class[OF 2]
    show ?thesis
    proof (cases "byte = 0xf0")
      case True
      then show ?thesis using assms
        by (auto simp: PushByte_def status_byte_def complete_def status_data_size_def Let_def)
    next
      case nf0: False
      show ?thesis
      proof (cases "running_status s = 0xf0")
        case False
        then show ?thesis using assms nr 2 nf0
          MessageReceived_length[of chk "s\<lparr>data_size := 0,
            expected_data_size := status_data_size (byte AND 0xf0) (byte AND 0x0f),
            running_status := byte\<rparr>" byte]
          by (auto simp: PushByte_def status_byte_def complete_def Let_def split: if_splits)
      next
        case True
        have "length e \<le> 1" if "byte \<noteq> 0xf7"
        proof (cases "0xf4 \<le> byte")
          case False
          then have "status_data_size (byte AND 0xf0) (byte AND 0x0f) \<noteq> 0"
            using status_no_data[OF 2] by simp
          then show ?thesis using assms nr 2 nf0 True
            by (auto simp: PushByte_def status_byte_def complete_def Let_def split: if_splits)
        next
          case f4: True
          then have "0xf0 \<le> byte" by (simp add: word_le_nat_alt)
          from sys_cases[OF this 2(2)] f4 that
          have "byte = 0xf4 \<or> byte = 0xf5 \<or> byte = 0xf6" by auto
          then show ?thesis using assms True
            by (elim disjE) (auto simp: eval_defs)
        qed
        then show ?thesis using nf0 True by auto
      qed
    qed
  next
    case 3
    note nb = data_byte_class[OF 3]
    from assms nb obtain s1 where "complete chk s1 [] = (s', e, v)"
      by (auto simp: PushByte_def split: sum.splits)
    from complete_calls[OF this] have "length e \<le> 1" by simp
    moreover from 3 have "byte \<noteq> 0xf0" by auto
    ultimately show ?thesis by simp
  qed
qed

lemma PushByte_system_value:
  assumes "PushByte chk s byte = Inr (s', e, v)" "0xf0 < v" "v < 0xf8"
  shows "running_status s' = 0 \<and> expected_data_size s' = 0 \<and> data_size s' = 0"
proof -
  consider "0xf8 \<le> byte" | "0x80 \<le> byte" "byte < 0xf8" | "byte < 0x80" by fastforce
  then show ?thesis
  proof cases
    case 1
    then show ?thesis using assms by (auto simp: PushByte_def)
  next
    case 2
    note nr = status_class[OF 2]
    show ?thesis using assms nr 2
      by (auto simp: PushByte_def status_byte_def complete_def Let_def split: if_splits)
  next
    case 3
    note nb = data_byte_class[OF 3]
    show ?thesis using assms nb
      by (auto simp: PushByte_def data_byte_def complete_def Let_def split: if_splits)
  qed
qed

lemma PushByte_chk_indep:
  assumes "PushByte chk s b = Inr (s', e, v)"
  shows "\<exists>e'. PushByte chk' s b = Inr (s', e', v)"
  using assms
  by (auto simp: PushByte_def complete_def Let_def split: if_splits sum.splits prod.splits)

section \<open>The invariant\<close>

lemma inv_constructed: "parser_inv (MidiStreamParser m0 m1 m2)"
  by (simp add: parser_inv_def MidiStreamParser_def)

lemma inv_data_size: "parser_inv s \<Longrightarrow> unat (data_size s) < 2"
  by (auto simp: parser_inv_def word_less_nat_alt word_le_nat_alt)

lemma inv_complete:
  assumes "length (data s) = 3" "expected_data_size s \<le> 2"
    "if running_status s = 0 then expected_data_size s = 0
      else 0x80 \<le> running_status s \<and> running_status s < 0xf8 \<and>
           expected_data_size s =
             status_data_size (running_status s AND 0xf0) (running_status s AND 0x0f)"
    "complete chk s e0 = (s', e, v)"
  shows "parser_inv s'"
  using assms
  by (auto simp: complete_def parser_inv_def Let_def split: if_splits)

lemma inv_status_byte:
  assumes "parser_inv s" "0x80 \<le> b" "b < 0xf8" "status_byte s b = (s', e)"
  shows "length (data s') = 3 \<and> expected_data_size s' \<le> 2 \<and> data_size s' = 0 \<and>
    running_status s' = b \<and>
    expected_data_size s' = status_data_size (b AND 0xf0) (b AND 0x0f)"
  using assms
  by (auto simp: status_byte_def parser_inv_def Let_def status_data_size_le)

lemma inv_PushByte:
  assumes "parser_inv s"
  shows "\<exists>s' e v. PushByte chk s b = Inr (s', e, v) \<and> parser_inv s'"
proof -
  consider "0xf8 \<le> b" | "\<not> 0xf8 \<le> b" "0x80 \<le> b" | "b < 0x80" by fastforce
  then show ?thesis
  proof cases
    case 1
    then show ?thesis using assms by (simp add: PushByte_def)
  next
    case 2
    obtain s1 e1 where sb: "status_byte s b = (s1, e1)" by (cases "status_byte s b")
    obtain s' e v where c: "complete chk s1 e1 = (s', e, v)"
      by (cases "complete chk s1 e1") auto
    from 2 have "b < 0xf8" by simp
    from inv_status_byte[OF assms 2(2) this sb] 2
    have "parser_inv s'" by (intro inv_complete[OF _ _ _ c]) auto
    then show ?thesis using 2 sb c by (simp add: PushByte_def)
  next
    case 3
    note nb = data_byte_class[OF 3]
    from inv_data_size[OF assms] assms
    obtain s1 where db: "data_byte s b = Inr s1" and
      s1: "length (data s1) = 3" "expected_data_size s1 = expected_data_size s"
        "running_status s1 = running_status s"
      by (auto simp: data_byte_def parser_inv_def)
    obtain s' e v where c: "complete chk s1 [] = (s', e, v)"
      by (cases "complete chk s1 []") auto
    have "parser_inv s'"
      using assms s1 by (intro inv_complete[OF _ _ _ c]) (auto simp: parser_inv_def)
    then show ?thesis using nb db c by (simp add: PushByte_def)
  qed
qed

lemma reachable_inv: "reachable chk s \<Longrightarrow> parser_inv s"
proof (induction rule: reachable.induct)
  case (constructed m0 m1 m2)
  show ?case by (rule inv_constructed)
next
  case (pushed s byte s' e v)
  then show ?case using inv_PushByte[of s chk byte] by auto
qed

lemma inv_orphan:
  assumes "parser_inv s" and "running_status s = 0" and "byte < 0x80"
  shows "PushByte chk s byte = Inr (s\<lparr>data := (data s)[0 := byte]\<rparr>, [BozoByte byte], 0) \<and>
         data_size s = 0 \<and> expected_data_size s = 0"
proof -
  from assms(1,2) have z: "expected_data_size s = 0" "data_size s = 0" "length (data s) = 3"
    by (auto simp: parser_inv_def)
  note nb = data_byte_class[OF assms(3)]
  show ?thesis using z nb assms(2)
    by (simp add: PushByte_def data_byte_def complete_def MessageReceived_def dispatch_def Let_def)
qed

lemma PushByte_sysex_value:
  assumes "parser_inv s" "PushByte chk s byte = Inr (s', e, v)" "v = 0xf0"
  shows "running_status s = 0xf0 \<and> byte < 0x80 \<and> e = [SysExByte byte] \<and>
         running_status s' = 0xf0 \<and> expected_data_size s' = 1 \<and> data_size s' = 0"
proof -
  consider "0xf8 \<le> byte" | "0x80 \<le> byte" "byte < 0xf8" | "byte < 0x80" by fastforce
  then show ?thesis
  proof cases
    case 1
    then show ?thesis using assms by (auto simp: PushByte_def)
  next
    case 2
    note nr = status_class[OF 2]
    have "byte \<noteq> 0xf0" using assms nr 2
      by (auto simp: PushByte_def status_byte_def complete_def status_data_size_def Let_def
          split: if_splits)
    then show ?thesis using assms nr 2
      by (auto simp: PushByte_def status_byte_def complete_def Let_def split: if_splits)
  next
    case 3
    note nb = data_byte_class[OF 3]
    from assms nb have rs: "running_status s = 0xf0"
      by (auto simp: PushByte_def data_byte_def complete_def Let_def split: if_splits)
    with assms(1) have i: "expected_data_size s = 1" "data_size s = 0" "length (data s) = 3"
      by (auto simp: parser_inv_def status_data_size_def word_less_nat_alt unat_eq_0)
    show ?thesis using assms(2,3) nb rs i 3
      by (auto simp: PushByte_def data_byte_def complete_def MessageReceived_def dispatch_def
        system_dispatch_def Let_def split: if_splits)
  qed
qed

lemma inv_status_value:
  assumes "0x80 \<le> byte" and "byte < 0xf8"
  shows "\<exists>s' e. PushByte chk s byte = Inr (s', e, if 0xf4 \<le> byte then byte else 0)"
  using assms status_class[OF assms] status_no_data[OF assms]
  by (simp add: PushByte_def status_byte_def complete_def Let_def)

lemma inv_data_value:
  assumes "parser_inv s" and "byte < 0x80" and "running_status s \<noteq> 0"
  shows "\<exists>s' e. PushByte chk s byte =
            Inr (s', e, if (running_status s AND 0xf0 = 0x80 \<or> running_status s AND 0xf0 = 0x90 \<or>
                            running_status s AND 0xf0 = 0xa0 \<or> running_status s AND 0xf0 = 0xb0 \<or>
                            running_status s AND 0xf0 = 0xe0 \<or> running_status s = 0xf1 \<or>
                            running_status s = 0xf2) \<and> data_size s = 0
                        then 0 else running_status s)"
proof -
  note nb = data_byte_class[OF assms(2)]
  from assms(1,3) have rs: "0x80 \<le> running_status s" "running_status s < 0xf8"
    and e: "expected_data_size s =
      status_data_size (running_status s AND 0xf0) (running_status s AND 0x0f)"
    and l: "length (data s) = 3"
    and d: "data_size s = 0 \<or> data_size s < expected_data_size s"
    by (auto simp: parser_inv_def)
  note two = status_two_data[OF rs]
  have l': "unat (data_size s) < length (data s)"
    using inv_data_size[OF assms(1)] l by simp
  from status_data_size_cases[of "running_status s AND 0xf0" "running_status s AND 0x0f"] e
  consider (zero) "expected_data_size s = 0" | (one) "expected_data_size s = 1"
    | (two) "expected_data_size s = 2" by auto
  then show ?thesis
  proof cases
    case zero
    with d have "data_size s = 0" by auto
    with zero e two show ?thesis using nb l'
      by (simp add: PushByte_def data_byte_def complete_def Let_def)
  next
    case one
    with d have "data_size s = 0" by (auto simp: word_less_nat_alt unat_eq_0)
    with one e two show ?thesis using nb l'
      by (simp add: PushByte_def data_byte_def complete_def Let_def)
  next
    case two2: two
    with d have "data_size s = 0 \<or> data_size s = 1"
      unfolding word_unat_eq_iff word_less_nat_alt by simp arith
    then show ?thesis
    proof
      assume z: "data_size s = 0"
      have w: "\<not> (2::u8) \<le> 1" by (simp add: word_le_nat_alt)
      from z two2 e two show ?thesis using nb l' w
        by (simp add: PushByte_def data_byte_def complete_def Let_def)
    next
      assume z: "data_size s = 1"
      from z two2 e two show ?thesis using nb l'
        by (simp add: PushByte_def data_byte_def complete_def Let_def)
    qed
  qed
qed

lemma inv_two_data_message:
  assumes "parser_inv s"
    and "st AND 0xf0 = 0x80 \<or> st AND 0xf0 = 0x90 \<or> st AND 0xf0 = 0xa0 \<or>
         st AND 0xf0 = 0xb0 \<or> st AND 0xf0 = 0xe0"
    and "d0 < 0x80" and "d1 < 0x80" and "d2 < 0x80" and "d3 < 0x80"
  shows "\<exists>s' es. feed chk s [st, d0, d1, d2, d3] = Inr (s', es, [0, 0, st, 0, st])"
proof -
  have l: "length (data s) = 3" using assms(1) by (simp add: parser_inv_def)
  from assms(2) have st: "0x80 \<le> st \<and> \<not> 0xf8 \<le> st \<and> \<not> 0xf0 < st \<and> st \<noteq> 0 \<and> st \<noteq> 0xf0"
    by (elim disjE) (rule channel_status, assumption, simp, simp)+
  have n: "status_data_size (st AND 0xf0) (st AND 0x0f) = 2"
    using assms(2) by (elim disjE) (simp_all add: status_data_size_def)
  note d = data_byte_class[OF assms(3)] data_byte_class[OF assms(4)]
    data_byte_class[OF assms(5)] data_byte_class[OF assms(6)]
  have w: "\<not> (2::u8) \<le> 1" by (simp add: word_le_nat_alt)
  show ?thesis
    using l st n d w
    by (simp add: PushByte_def status_byte_def data_byte_def complete_def Let_def)
qed

lemma inv_one_data_message:
  assumes "parser_inv s"
    and "st AND 0xf0 = 0xc0 \<or> st AND 0xf0 = 0xd0"
    and "d0 < 0x80" and "d1 < 0x80"
  shows "\<exists>s' es. feed chk s [st, d0, d1] = Inr (s', es, [0, st, st])"
proof -
  have l: "length (data s) = 3" using assms(1) by (simp add: parser_inv_def)
  from assms(2) have st: "0x80 \<le> st \<and> \<not> 0xf8 \<le> st \<and> \<not> 0xf0 < st \<and> st \<noteq> 0 \<and> st \<noteq> 0xf0"
    by (elim disjE) (rule channel_status, assumption, simp, simp)+
  have n: "status_data_size (st AND 0xf0) (st AND 0x0f) = 1"
    using assms(2) by (elim disjE) (simp_all add: status_data_size_def)
  note d = data_byte_class[OF assms(3)] data_byte_class[OF assms(4)]
  show ?thesis
    using l st n d
    by (simp add: PushByte_def status_byte_def data_byte_def complete_def Let_def)
qed

lemma inv_system_messages:
  assumes "parser_inv s" and "d0 < 0x80" and "d1 < 0x80" and "d2 < 0x80"
  shows "(\<exists>s' es. feed chk s [0xf0, d0, d1] = Inr (s', es, [0, 0xf0, 0xf0])) \<and>
         (\<exists>s' es. feed chk s [0xf1, d0, d1, d2] = Inr (s', es, [0, 0, 0xf1, 0])) \<and>
         (\<exists>s' es. feed chk s [0xf2, d0, d1, d2] = Inr (s', es, [0, 0, 0xf2, 0])) \<and>
         (\<exists>s' es. feed chk s [0xf3, d0, d1] = Inr (s', es, [0, 0xf3, 0])) \<and>
         (\<exists>s' es. feed chk s [0xf4, d0] = Inr (s', es, [0xf4, 0])) \<and>
         (\<exists>s' es. feed chk s [0xf5, d0] = Inr (s', es, [0xf5, 0])) \<and>
         (\<exists>s' es. feed chk s [0xf6, d0] = Inr (s', es, [0xf6, 0])) \<and>
         (\<exists>s' es. feed chk s [0xf7, d0] = Inr (s', es, [0xf7, 0]))"
proof -
  have l: "length (data s) = 3" using assms(1) by (simp add: parser_inv_def)
  note d = data_byte_class[OF assms(2)] data_byte_class[OF assms(3)] data_byte_class[OF assms(4)]
  have w: "\<not> (2::u8) \<le> 1" "\<not> (0xf8::u8) \<le> 0xf0" "(0x80::u8) \<le> 0xf0"
    "\<not> (0xf8::u8) \<le> 0xf1" "(0x80::u8) \<le> 0xf1" "\<not> (0xf8::u8) \<le> 0xf2" "(0x80::u8) \<le> 0xf2"
    "\<not> (0xf8::u8) \<le> 0xf3" "(0x80::u8) \<le> 0xf3" "\<not> (0xf8::u8) \<le> 0xf4" "(0x80::u8) \<le> 0xf4"
    "\<not> (0xf8::u8) \<le> 0xf5" "(0x80::u8) \<le> 0xf5" "\<not> (0xf8::u8) \<le> 0xf6" "(0x80::u8) \<le> 0xf6"
    "\<not> (0xf8::u8) \<le> 0xf7" "(0x80::u8) \<le> 0xf7"
    by (simp_all add: word_le_nat_alt)
  have a: "\<exists>s' es. feed chk s [0xf0, d0, d1] = Inr (s', es, [0, 0xf0, 0xf0])"
    using l d w
    by (simp add: PushByte_def status_byte_def data_byte_def complete_def status_data_size_def Let_def)
  have b: "\<exists>s' es. feed chk s [0xf1, d0, d1, d2] = Inr (s', es, [0, 0, 0xf1, 0])"
    using l d w
    by (simp add: PushByte_def status_byte_def data_byte_def complete_def status_data_size_def Let_def)
  have c: "\<exists>s' es. feed chk s [0xf2, d0, d1, d2] = Inr (s', es, [0, 0, 0xf2, 0])"
    using l d w
    by (simp add: PushByte_def status_byte_def data_byte_def complete_def status_data_size_def Let_def)
  have e: "\<exists>s' es. feed chk s [0xf3, d0, d1] = Inr (s', es, [0, 0xf3, 0])"
    using l d w
    by (simp add: PushByte_def status_byte_def data_byte_def complete_def status_data_size_def Let_def)
  have f: "\<exists>s' es. feed chk s [st, d0] = Inr (s', es, [st, 0])"
    if "st = 0xf4 \<or> st = 0xf5 \<or> st = 0xf6 \<or> st = 0xf7" for st
    using that l d w
    by (elim disjE)
      (simp_all add: PushByte_def status_byte_def data_byte_def complete_def status_data_size_def Let_def)
  from a b c e f[of "0xf4"] f[of "0xf5"] f[of "0xf6"] f[of "0xf7"] show ?thesis by simp
qed

section \<open>Streams\<close>

lemma feed_append:
  "feed chk s (xs @ ys) =
     (case feed chk s xs of
        Inl f \<Rightarrow> Inl f
      | Inr (s1, e1, v1) \<Rightarrow>
          (case feed chk s1 ys of
             Inl f \<Rightarrow> Inl f
           | Inr (s2, e2, v2) \<Rightarrow> Inr (s2, e1 @ e2, v1 @ v2)))"
  by (induction xs arbitrary: s) (auto split: sum.splits)

lemma reachable_feed:
  assumes "reachable chk s"
  shows "\<exists>s' es vs. feed chk s bs = Inr (s', es, vs) \<and> reachable chk s'"
  using assms
proof (induction bs arbitrary: s)
  case Nil
  then show ?case by simp
next
  case (Cons b bs)
  from inv_PushByte[OF reachable_inv[OF Cons.prems], of chk b]
  obtain s1 e v where p: "PushByte chk s b = Inr (s1, e, v)" by blast
  from Cons.IH[OF pushed[OF Cons.prems p]] p show ?case by auto
qed

lemma feed_reachable:
  assumes "reachable chk s" and "feed chk s bs = Inr (s', es, vs)"
  shows "reachable chk s'"
  using reachable_feed[OF assms(1), of bs] assms(2) by auto

lemma feed_chk_indep:
  assumes "feed chk s bs = Inr (s', es, vs)"
  shows "\<exists>es'. feed chk' s bs = Inr (s', es', vs)"
  using assms
proof (induction bs arbitrary: s es vs)
  case Nil
  then show ?case by simp
next
  case (Cons b bs)
  from Cons.prems obtain s1 e v es1 vs1 where
    p: "PushByte chk s b = Inr (s1, e, v)" and f: "feed chk s1 bs = Inr (s', es1, vs1)"
    and vs: "vs = v # vs1"
    by (auto split: sum.splits)
  from PushByte_chk_indep[OF p, of chk'] obtain e' where "PushByte chk' s b = Inr (s1, e', v)" ..
  moreover from Cons.IH[OF f] obtain es' where "feed chk' s1 bs = Inr (s', es', vs1)" ..
  ultimately show ?case using vs by simp
qed

text \<open>The state in the middle of a System Exclusive message: after \<open>F0\<close>.\<close>

lemma reachable_sysex:
  "reachable chk \<lparr>running_status = 0xf0, data = [m0, m1, m2], data_size = 0,
                  expected_data_size = 1\<rparr>"
proof -
  have "feed chk (MidiStreamParser m0 m1 m2) [0xf0] =
      Inr (\<lparr>running_status = 0xf0, data = [m0, m1, m2], data_size = 0, expected_data_size = 1\<rparr>,
           [SysExStart], [0])"
    by (simp add: eval_defs)
  from feed_reachable[OF constructed this] show ?thesis .
qed

text \<open>The state in the middle of a Note On message: after \<open>90 3C\<close>.\<close>

lemma reachable_note:
  "reachable chk \<lparr>running_status = 0x90, data = [0x3c, m1, m2], data_size = 1,
                  expected_data_size = 2\<rparr>"
proof -
  have "feed chk (MidiStreamParser m0 m1 m2) [0x90, 0x3c] =
      Inr (\<lparr>running_status = 0x90, data = [0x3c, m1, m2], data_size = 1, expected_data_size = 2\<rparr>,
           [], [0, 0])"
    by (simp add: eval_defs)
  from feed_reachable[OF constructed this] show ?thesis .
qed

section \<open>The claims\<close>

text \<open>
  C1. The bytes \<open>F0 01 02 F7\<close>, pushed into a parser as constructed, make the calls
  \<open>SysExStart()\<close>, \<open>SysExByte(1)\<close>, \<open>SysExByte(2)\<close>, \<open>SysExEnd()\<close> and then
  \<open>SysExEnd()\<close> a second time: the byte \<open>F7\<close> finds the running status \<open>0xf0\<close>, which
  ends the message once in \<open>PushByte\<close>, and is then dispatched as a message of its own,
  which ends it again in \<open>MessageReceived\<close>. The four calls return 0, \<open>0xf0\<close>, \<open>0xf0\<close>
  and \<open>0xf7\<close>.
\<close>

theorem sysex_explicit_end_trace:
  "feed chk (MidiStreamParser m0 m1 m2) [0xf0, 0x01, 0x02, 0xf7] =
     Inr (\<lparr>running_status = 0, data = [0x02, m1, m2], data_size = 0, expected_data_size = 0\<rparr>,
          [SysExStart, SysExByte 1, SysExByte 2, SysExEnd, SysExEnd],
          [0, 0xf0, 0xf0, 0xf7])"
  by (simp add: eval_defs)

text \<open>
  C2, as amended. In a reachable state a call of \<open>PushByte\<close> returns, and it makes at most
  one callback, unless the running status is \<open>0xf0\<close> and the byte is \<open>0xf0\<close> or \<open>0xf7\<close>.
  With running status \<open>0xf0\<close> the byte \<open>0xf0\<close> makes exactly two: \<open>SysExEnd()\<close> for the
  message it cuts short, then \<open>SysExStart()\<close> for the one it opens. Nothing is said here
  of the byte \<open>0xf7\<close> under running status \<open>0xf0\<close>.
\<close>

theorem one_call_callbacks:
  assumes "reachable chk s"
  shows "\<exists>s' e v. PushByte chk s byte = Inr (s', e, v) \<and>
     (\<not> (running_status s = 0xf0 \<and> (byte = 0xf0 \<or> byte = 0xf7)) \<longrightarrow> length e \<le> 1) \<and>
     (running_status s = 0xf0 \<and> byte = 0xf0 \<longrightarrow> e = [SysExEnd, SysExStart])"
proof -
  from inv_PushByte[OF reachable_inv[OF assms], of chk byte]
  obtain s' e v where p: "PushByte chk s byte = Inr (s', e, v)" by blast
  from PushByte_calls[OF p] p show ?thesis by blast
qed

theorem one_call_callbacks_witness:
  "reachable MidiDevice_CheckChannel (MidiStreamParser 0 0 0) \<and>
   (\<exists>s' e v. PushByte MidiDevice_CheckChannel (MidiStreamParser 0 0 0) 0x40 = Inr (s', e, v) \<and>
      length e \<le> 1) \<and>
   reachable MidiDevice_CheckChannel
     \<lparr>running_status = 0xf0, data = [0, 0, 0], data_size = 0, expected_data_size = 1\<rparr> \<and>
   (\<exists>s' e v. PushByte MidiDevice_CheckChannel
       \<lparr>running_status = 0xf0, data = [0, 0, 0], data_size = 0, expected_data_size = 1\<rparr> 0xf0 =
         Inr (s', e, v) \<and> e = [SysExEnd, SysExStart])"
proof -
  have r0: "reachable MidiDevice_CheckChannel (MidiStreamParser 0 0 0)" by (rule constructed)
  have r1: "reachable MidiDevice_CheckChannel
     \<lparr>running_status = 0xf0, data = [0, 0, 0], data_size = 0, expected_data_size = 1\<rparr>"
    by (rule reachable_sysex)
  have a: "\<exists>s' e v. PushByte MidiDevice_CheckChannel (MidiStreamParser 0 0 0) 0x40 =
      Inr (s', e, v) \<and> length e \<le> 1"
    using one_call_callbacks[OF r0, of "0x40"] by (simp add: MidiStreamParser_def)
  have b: "\<exists>s' e v. PushByte MidiDevice_CheckChannel
       \<lparr>running_status = 0xf0, data = [0, 0, 0], data_size = 0, expected_data_size = 1\<rparr> 0xf0 =
         Inr (s', e, v) \<and> e = [SysExEnd, SysExStart]"
    using one_call_callbacks[OF r1, of "0xf0"] by simp
  from r0 a r1 b show ?thesis by blast
qed

text \<open>
  The state after \<open>F0\<close> is reachable, and there the byte \<open>F0\<close> makes two callbacks in
  one call.
\<close>

theorem one_call_callbacks_counterexample:
  "feed MidiDevice_CheckChannel (MidiStreamParser 0 0 0) [0xf0] =
     Inr (\<lparr>running_status = 0xf0, data = [0, 0, 0], data_size = 0, expected_data_size = 1\<rparr>,
          [SysExStart], [0]) \<and>
   PushByte MidiDevice_CheckChannel
     \<lparr>running_status = 0xf0, data = [0, 0, 0], data_size = 0, expected_data_size = 1\<rparr> 0xf0 =
     Inr (\<lparr>running_status = 0xf0, data = [0, 0, 0], data_size = 0, expected_data_size = 1\<rparr>,
          [SysExEnd, SysExStart], 0)"
  by (simp add: eval_defs)

text \<open>
  C3, as amended. When a call in a reachable state returns a status from \<open>0xf1\<close> to
  \<open>0xf7\<close>, the running status and the expected count are 0 after it, and a data byte that
  follows is reported by \<open>BozoByte\<close> and returns 0: the status is not used again. When
  the call returns \<open>0xf0\<close>, it has passed a data byte to \<open>SysExByte\<close>; the running status
  stays \<open>0xf0\<close> and the expected count stays 1, and a data byte that follows is passed to
  \<open>SysExByte\<close> in its turn.
\<close>

theorem system_status_cleared:
  assumes "reachable chk s" and "PushByte chk s byte = Inr (s', e, v)"
  shows "(0xf0 < v \<and> v < 0xf8 \<longrightarrow>
            running_status s' = 0 \<and> expected_data_size s' = 0 \<and>
            (\<forall>d. d < 0x80 \<longrightarrow>
               PushByte chk s' d = Inr (s'\<lparr>data := (data s')[0 := d]\<rparr>, [BozoByte d], 0))) \<and>
         (v = 0xf0 \<longrightarrow>
            e = [SysExByte byte] \<and> running_status s' = 0xf0 \<and> expected_data_size s' = 1 \<and>
            (\<forall>d. d < 0x80 \<longrightarrow> (\<exists>s''. PushByte chk s' d = Inr (s'', [SysExByte d], 0xf0))))"
proof -
  have i: "parser_inv s" using assms(1) by (rule reachable_inv)
  have i': "parser_inv s'" using reachable_inv[OF pushed[OF assms]] .
  have a: "running_status s' = 0 \<and> expected_data_size s' = 0 \<and>
            (\<forall>d. d < 0x80 \<longrightarrow>
               PushByte chk s' d = Inr (s'\<lparr>data := (data s')[0 := d]\<rparr>, [BozoByte d], 0))"
    if "0xf0 < v" "v < 0xf8"
    using PushByte_system_value[OF assms(2) that] inv_orphan[OF i'] by simp
  have b: "e = [SysExByte byte] \<and> running_status s' = 0xf0 \<and> expected_data_size s' = 1 \<and>
            (\<forall>d. d < 0x80 \<longrightarrow> (\<exists>s''. PushByte chk s' d = Inr (s'', [SysExByte d], 0xf0)))"
    if v: "v = 0xf0"
  proof -
    note k = PushByte_sysex_value[OF i assms(2) v]
    have "\<exists>s''. PushByte chk s' d = Inr (s'', [SysExByte d], 0xf0)" if d: "d < 0x80" for d
      using k i' data_byte_class[OF d]
      by (auto simp: parser_inv_def PushByte_def data_byte_def complete_def MessageReceived_def
          dispatch_def system_dispatch_def Let_def)
    with k show ?thesis by simp
  qed
  from a b show ?thesis by blast
qed

theorem system_status_cleared_witness:
  "reachable MidiDevice_CheckChannel (MidiStreamParser 0 0 0) \<and>
   PushByte MidiDevice_CheckChannel (MidiStreamParser 0 0 0) 0xf7 =
     Inr (MidiStreamParser 0 0 0, [SysExEnd], 0xf7) \<and>
   (0xf0 :: u8) < 0xf7 \<and> (0xf7 :: u8) < 0xf8 \<and>
   running_status (MidiStreamParser 0 0 0) = 0 \<and>
   expected_data_size (MidiStreamParser 0 0 0) = 0 \<and>
   (0x01 :: u8) < 0x80 \<and>
   PushByte MidiDevice_CheckChannel (MidiStreamParser 0 0 0) 0x01 =
     Inr (\<lparr>running_status = 0, data = [0x01, 0, 0], data_size = 0, expected_data_size = 0\<rparr>,
          [BozoByte 0x01], 0) \<and>
   reachable MidiDevice_CheckChannel
     \<lparr>running_status = 0xf0, data = [0, 0, 0], data_size = 0, expected_data_size = 1\<rparr> \<and>
   PushByte MidiDevice_CheckChannel
     \<lparr>running_status = 0xf0, data = [0, 0, 0], data_size = 0, expected_data_size = 1\<rparr> 0x01 =
     Inr (\<lparr>running_status = 0xf0, data = [0x01, 0, 0], data_size = 0, expected_data_size = 1\<rparr>,
          [SysExByte 0x01], 0xf0) \<and>
   (\<exists>s''. PushByte MidiDevice_CheckChannel
      \<lparr>running_status = 0xf0, data = [0x01, 0, 0], data_size = 0, expected_data_size = 1\<rparr> 0x02 =
      Inr (s'', [SysExByte 0x02], 0xf0))"
proof -
  have r0: "reachable MidiDevice_CheckChannel (MidiStreamParser 0 0 0)" by (rule constructed)
  have p0: "PushByte MidiDevice_CheckChannel (MidiStreamParser 0 0 0) 0xf7 =
     Inr (MidiStreamParser 0 0 0, [SysExEnd], 0xf7)"
    by (simp add: eval_defs)
  have r1: "reachable MidiDevice_CheckChannel
     \<lparr>running_status = 0xf0, data = [0, 0, 0], data_size = 0, expected_data_size = 1\<rparr>"
    by (rule reachable_sysex)
  have p1: "PushByte MidiDevice_CheckChannel
     \<lparr>running_status = 0xf0, data = [0, 0, 0], data_size = 0, expected_data_size = 1\<rparr> 0x01 =
     Inr (\<lparr>running_status = 0xf0, data = [0x01, 0, 0], data_size = 0, expected_data_size = 1\<rparr>,
          [SysExByte 0x01], 0xf0)"
    by (simp add: eval_defs)
  have a: "running_status (MidiStreamParser 0 0 0) = 0 \<and>
     expected_data_size (MidiStreamParser 0 0 0) = 0 \<and>
     PushByte MidiDevice_CheckChannel (MidiStreamParser 0 0 0) 0x01 =
       Inr (\<lparr>running_status = 0, data = [0x01, 0, 0], data_size = 0, expected_data_size = 0\<rparr>,
            [BozoByte 0x01], 0)"
    using system_status_cleared[OF r0 p0] by (simp add: MidiStreamParser_def)
  have b: "\<exists>s''. PushByte MidiDevice_CheckChannel
      \<lparr>running_status = 0xf0, data = [0x01, 0, 0], data_size = 0, expected_data_size = 1\<rparr> 0x02 =
      Inr (s'', [SysExByte 0x02], 0xf0)"
    using system_status_cleared[OF r1 p1] by simp
  from r0 p0 a r1 p1 b show ?thesis by simp
qed

text \<open>
  The bytes \<open>F0 01 02\<close>: the call for \<open>01\<close> returns \<open>0xf0\<close>, a System status, and
  leaves the running status \<open>0xf0\<close> and the expected count 1; the byte \<open>02\<close> is then
  decoded under that running status.
\<close>

theorem system_status_cleared_counterexample:
  "feed MidiDevice_CheckChannel (MidiStreamParser 0 0 0) [0xf0, 0x01] =
     Inr (\<lparr>running_status = 0xf0, data = [0x01, 0, 0], data_size = 0, expected_data_size = 1\<rparr>,
          [SysExStart, SysExByte 0x01], [0, 0xf0]) \<and>
   feed MidiDevice_CheckChannel (MidiStreamParser 0 0 0) [0xf0, 0x01, 0x02] =
     Inr (\<lparr>running_status = 0xf0, data = [0x02, 0, 0], data_size = 0, expected_data_size = 1\<rparr>,
          [SysExStart, SysExByte 0x01, SysExByte 0x02], [0, 0xf0, 0xf0])"
  by (simp add: eval_defs)

text \<open>
  C4. In a reachable state a realtime byte (\<open>0xf8\<close> and above) leaves the parser as it
  is: \<open>PushByte\<close> returns the same state and the byte, and the callbacks it makes depend
  neither on the state nor on \<open>CheckChannel\<close>. So for a stream \<open>xs @ ys\<close>, putting the
  byte between \<open>xs\<close> and \<open>ys\<close> gives the same final state and the same callbacks for
  \<open>xs\<close> and for \<open>ys\<close>, with those of the realtime byte between them.
\<close>

theorem realtime_transparent:
  assumes "reachable chk s" and "0xf8 \<le> byte"
  shows "PushByte chk s byte = Inr (s, MessageReceived chk s byte, byte) \<and>
         (\<forall>chk' s'. MessageReceived chk' s' byte = MessageReceived chk s byte) \<and>
         (\<exists>s1 e1 v1 s2 e2 v2.
            feed chk s xs = Inr (s1, e1, v1) \<and> feed chk s1 ys = Inr (s2, e2, v2) \<and>
            feed chk s (xs @ ys) = Inr (s2, e1 @ e2, v1 @ v2) \<and>
            feed chk s (xs @ byte # ys) =
              Inr (s2, e1 @ MessageReceived chk s byte @ e2, v1 @ byte # v2))"
proof -
  have p: "PushByte chk t byte = Inr (t, MessageReceived chk s byte, byte)" for t
    using assms(2) realtime_dispatch_indep[OF assms(2), of chk t chk s] by (simp add: PushByte_def)
  from reachable_feed[OF assms(1), of xs]
  obtain s1 e1 v1 where x: "feed chk s xs = Inr (s1, e1, v1)" and r1: "reachable chk s1" by blast
  from reachable_feed[OF r1, of ys]
  obtain s2 e2 v2 where y: "feed chk s1 ys = Inr (s2, e2, v2)" by blast
  have "feed chk s1 (byte # ys) = Inr (s2, MessageReceived chk s byte @ e2, byte # v2)"
    using p[of s1] y by simp
  then have "feed chk s (xs @ byte # ys) =
      Inr (s2, e1 @ MessageReceived chk s byte @ e2, v1 @ byte # v2)"
    using x by (simp add: feed_append)
  moreover have "feed chk s (xs @ ys) = Inr (s2, e1 @ e2, v1 @ v2)"
    using x y by (simp add: feed_append)
  ultimately show ?thesis
    using p[of s] x y realtime_dispatch_indep[OF assms(2)] by blast
qed

theorem realtime_transparent_witness:
  "reachable MidiDevice_CheckChannel (MidiStreamParser 0 0 0) \<and> (0xf8 :: u8) \<le> 0xf8 \<and>
   PushByte MidiDevice_CheckChannel (MidiStreamParser 0 0 0) 0xf8 =
     Inr (MidiStreamParser 0 0 0, [Clock], 0xf8) \<and>
   feed MidiDevice_CheckChannel (MidiStreamParser 0 0 0) ([0x90, 0x3c] @ [0x40]) =
     Inr (\<lparr>running_status = 0x90, data = [0x3c, 0x40, 0], data_size = 0, expected_data_size = 2\<rparr>,
          [NoteOn 0 0x3c 0x40], [0, 0, 0x90]) \<and>
   feed MidiDevice_CheckChannel (MidiStreamParser 0 0 0) ([0x90, 0x3c] @ 0xf8 # [0x40]) =
     Inr (\<lparr>running_status = 0x90, data = [0x3c, 0x40, 0], data_size = 0, expected_data_size = 2\<rparr>,
          [Clock, NoteOn 0 0x3c 0x40], [0, 0, 0xf8, 0x90])"
proof -
  have r: "reachable MidiDevice_CheckChannel (MidiStreamParser 0 0 0)" by (rule constructed)
  have b: "(0xf8 :: u8) \<le> 0xf8" by simp
  show ?thesis using r b realtime_transparent[OF r b, of "[0x90, 0x3c]" "[0x40]"]
    by (simp add: eval_defs)
qed

text \<open>
  C5. In a reachable state \<open>PushByte\<close> returns, and the value is: for a realtime byte,
  the byte itself; for a status byte, the byte itself if it is \<open>0xf4\<close> to \<open>0xf7\<close> (a
  message with no data) and 0 otherwise; for a data byte, 0 if the running status is 0,
  0 if it is the first data byte of a message with two (Note Off, Note On, polyphonic
  Aftertouch, Control Change, Pitch Bend, \<open>0xf1\<close>, \<open>0xf2\<close>), and the running status
  otherwise. For whole messages pushed in a reachable state, with data bytes below
  \<open>0x80\<close>:
  a status \<open>0x8n\<close>, \<open>0x9n\<close>, \<open>0xan\<close>, \<open>0xbn\<close> or \<open>0xen\<close> returns 0, 0, status
  over its two data bytes, and 0, status over two more under running status;
  a status \<open>0xcn\<close> or \<open>0xdn\<close> returns 0, status, and status again for one more data byte;
  \<open>0xf0\<close> returns 0 and then \<open>0xf0\<close> on every data byte;
  \<open>0xf1\<close> and \<open>0xf2\<close> return 0, 0, status, and \<open>0xf3\<close> returns 0, status, after which a
  data byte returns 0;
  \<open>0xf4\<close> to \<open>0xf7\<close> return the status at once, after which a data byte returns 0.
\<close>

theorem return_value:
  assumes "reachable chk s" and "d0 < 0x80" and "d1 < 0x80" and "d2 < 0x80" and "d3 < 0x80"
  shows
    "(\<exists>s' e. PushByte chk s byte =
        Inr (s', e,
          if 0xf8 \<le> byte then byte
          else if 0x80 \<le> byte then (if 0xf4 \<le> byte then byte else 0)
          else if running_status s = 0 then 0
          else if (running_status s AND 0xf0 = 0x80 \<or> running_status s AND 0xf0 = 0x90 \<or>
                   running_status s AND 0xf0 = 0xa0 \<or> running_status s AND 0xf0 = 0xb0 \<or>
                   running_status s AND 0xf0 = 0xe0 \<or> running_status s = 0xf1 \<or>
                   running_status s = 0xf2) \<and> data_size s = 0 then 0
          else running_status s)) \<and>
     (st AND 0xf0 = 0x80 \<or> st AND 0xf0 = 0x90 \<or> st AND 0xf0 = 0xa0 \<or>
      st AND 0xf0 = 0xb0 \<or> st AND 0xf0 = 0xe0 \<longrightarrow>
        (\<exists>s' es. feed chk s [st, d0, d1, d2, d3] = Inr (s', es, [0, 0, st, 0, st]))) \<and>
     (st AND 0xf0 = 0xc0 \<or> st AND 0xf0 = 0xd0 \<longrightarrow>
        (\<exists>s' es. feed chk s [st, d0, d1] = Inr (s', es, [0, st, st]))) \<and>
     (\<exists>s' es. feed chk s [0xf0, d0, d1] = Inr (s', es, [0, 0xf0, 0xf0])) \<and>
     (\<exists>s' es. feed chk s [0xf1, d0, d1, d2] = Inr (s', es, [0, 0, 0xf1, 0])) \<and>
     (\<exists>s' es. feed chk s [0xf2, d0, d1, d2] = Inr (s', es, [0, 0, 0xf2, 0])) \<and>
     (\<exists>s' es. feed chk s [0xf3, d0, d1] = Inr (s', es, [0, 0xf3, 0])) \<and>
     (\<exists>s' es. feed chk s [0xf4, d0] = Inr (s', es, [0xf4, 0])) \<and>
     (\<exists>s' es. feed chk s [0xf5, d0] = Inr (s', es, [0xf5, 0])) \<and>
     (\<exists>s' es. feed chk s [0xf6, d0] = Inr (s', es, [0xf6, 0])) \<and>
     (\<exists>s' es. feed chk s [0xf7, d0] = Inr (s', es, [0xf7, 0]))"
proof -
  have i: "parser_inv s" using assms(1) by (rule reachable_inv)
  have v: "\<exists>s' e. PushByte chk s byte =
        Inr (s', e,
          if 0xf8 \<le> byte then byte
          else if 0x80 \<le> byte then (if 0xf4 \<le> byte then byte else 0)
          else if running_status s = 0 then 0
          else if (running_status s AND 0xf0 = 0x80 \<or> running_status s AND 0xf0 = 0x90 \<or>
                   running_status s AND 0xf0 = 0xa0 \<or> running_status s AND 0xf0 = 0xb0 \<or>
                   running_status s AND 0xf0 = 0xe0 \<or> running_status s = 0xf1 \<or>
                   running_status s = 0xf2) \<and> data_size s = 0 then 0
          else running_status s)"
  proof -
    consider "0xf8 \<le> byte" | "0x80 \<le> byte" "byte < 0xf8" | "byte < 0x80" by fastforce
    then show ?thesis
    proof cases
      case 1
      then show ?thesis by (simp add: PushByte_def)
    next
      case 2
      from inv_status_value[OF 2, of chk s] 2 status_class[OF 2] show ?thesis by simp
    next
      case 3
      note nb = data_byte_class[OF 3]
      show ?thesis
      proof (cases "running_status s = 0")
        case True
        with inv_orphan[OF i True 3, of chk] nb show ?thesis by simp
      next
        case False
        with inv_data_value[OF i 3 False, of chk] nb show ?thesis by simp
      qed
    qed
  qed
  note two = inv_two_data_message[OF i _ assms(2,3,4,5), of st chk]
  note one = inv_one_data_message[OF i _ assms(2,3), of st chk]
  note sys = inv_system_messages[OF i assms(2,3,4), of chk]
  from v two one sys show ?thesis by blast
qed

theorem return_value_witness:
  "reachable MidiDevice_CheckChannel (MidiStreamParser 0 0 0) \<and>
   (0x3c :: u8) < 0x80 \<and> (0x40 :: u8) < 0x80 \<and> (0x00 :: u8) < 0x80 \<and>
   (\<exists>s' e. PushByte MidiDevice_CheckChannel (MidiStreamParser 0 0 0) 0xf8 = Inr (s', e, 0xf8)) \<and>
   (\<exists>s' e. PushByte MidiDevice_CheckChannel (MidiStreamParser 0 0 0) 0x90 = Inr (s', e, 0)) \<and>
   (\<exists>s' e. PushByte MidiDevice_CheckChannel (MidiStreamParser 0 0 0) 0xf6 = Inr (s', e, 0xf6)) \<and>
   (\<exists>s' e. PushByte MidiDevice_CheckChannel (MidiStreamParser 0 0 0) 0x40 = Inr (s', e, 0)) \<and>
   reachable MidiDevice_CheckChannel
     \<lparr>running_status = 0x90, data = [0x3c, 0, 0], data_size = 1, expected_data_size = 2\<rparr> \<and>
   (\<exists>s' e. PushByte MidiDevice_CheckChannel
      \<lparr>running_status = 0x90, data = [0x3c, 0, 0], data_size = 1, expected_data_size = 2\<rparr> 0x40 =
      Inr (s', e, 0x90)) \<and>
   reachable MidiDevice_CheckChannel
     \<lparr>running_status = 0x90, data = [0, 0, 0], data_size = 0, expected_data_size = 2\<rparr> \<and>
   (\<exists>s' e. PushByte MidiDevice_CheckChannel
      \<lparr>running_status = 0x90, data = [0, 0, 0], data_size = 0, expected_data_size = 2\<rparr> 0x3c =
      Inr (s', e, 0)) \<and>
   (0xe0 :: u8) AND 0xf0 = 0xe0 \<and>
   (\<exists>s' es. feed MidiDevice_CheckChannel (MidiStreamParser 0 0 0) [0xe0, 0x00, 0x40, 0x3c, 0x40] =
      Inr (s', es, [0, 0, 0xe0, 0, 0xe0])) \<and>
   (0xc5 :: u8) AND 0xf0 = 0xc0 \<and>
   (\<exists>s' es. feed MidiDevice_CheckChannel (MidiStreamParser 0 0 0) [0xc5, 0x00, 0x40] =
      Inr (s', es, [0, 0xc5, 0xc5])) \<and>
   (\<exists>s' es. feed MidiDevice_CheckChannel (MidiStreamParser 0 0 0) [0xf0, 0x00, 0x40] =
      Inr (s', es, [0, 0xf0, 0xf0])) \<and>
   (\<exists>s' es. feed MidiDevice_CheckChannel (MidiStreamParser 0 0 0) [0xf6, 0x00] =
      Inr (s', es, [0xf6, 0]))"
proof -
  have r: "reachable MidiDevice_CheckChannel (MidiStreamParser 0 0 0)" by (rule constructed)
  have rn: "reachable MidiDevice_CheckChannel
     \<lparr>running_status = 0x90, data = [0x3c, 0, 0], data_size = 1, expected_data_size = 2\<rparr>"
    by (rule reachable_note)
  have "feed MidiDevice_CheckChannel (MidiStreamParser 0 0 0) [0x90] =
      Inr (\<lparr>running_status = 0x90, data = [0, 0, 0], data_size = 0, expected_data_size = 2\<rparr>,
           [], [0])"
    by (simp add: eval_defs)
  from feed_reachable[OF constructed this]
  have rs: "reachable MidiDevice_CheckChannel
     \<lparr>running_status = 0x90, data = [0, 0, 0], data_size = 0, expected_data_size = 2\<rparr>" .
  have d: "(0x3c :: u8) < 0x80" "(0x40 :: u8) < 0x80" "(0x00 :: u8) < 0x80" by simp_all
  have h: "(0xe0 :: u8) AND 0xf0 = 0xe0" "(0xc5 :: u8) AND 0xf0 = 0xc0" by simp_all
  note w = word_le_nat_alt word_less_nat_alt MidiStreamParser_def
  have a: "\<exists>s' e. PushByte MidiDevice_CheckChannel (MidiStreamParser 0 0 0) 0xf8 = Inr (s', e, 0xf8)"
    using return_value[OF r d(3) d(2) d(1) d(2), where byte = "0xf8"] by (simp add: w)
  have b: "\<exists>s' e. PushByte MidiDevice_CheckChannel (MidiStreamParser 0 0 0) 0x90 = Inr (s', e, 0)"
    using return_value[OF r d(3) d(2) d(1) d(2), where byte = "0x90"] by (simp add: w)
  have c: "\<exists>s' e. PushByte MidiDevice_CheckChannel (MidiStreamParser 0 0 0) 0xf6 = Inr (s', e, 0xf6)"
    using return_value[OF r d(3) d(2) d(1) d(2), where byte = "0xf6"] by (simp add: w)
  have e: "\<exists>s' e. PushByte MidiDevice_CheckChannel (MidiStreamParser 0 0 0) 0x40 = Inr (s', e, 0)"
    using return_value[OF r d(3) d(2) d(1) d(2), where byte = "0x40"] by (simp add: w)
  have f: "\<exists>s' e. PushByte MidiDevice_CheckChannel
      \<lparr>running_status = 0x90, data = [0x3c, 0, 0], data_size = 1, expected_data_size = 2\<rparr> 0x40 =
      Inr (s', e, 0x90)"
    using return_value[OF rn d(3) d(2) d(1) d(2), where byte = "0x40"] by (simp add: w)
  have g: "\<exists>s' e. PushByte MidiDevice_CheckChannel
      \<lparr>running_status = 0x90, data = [0, 0, 0], data_size = 0, expected_data_size = 2\<rparr> 0x3c =
      Inr (s', e, 0)"
    using return_value[OF rs d(3) d(2) d(1) d(2), where byte = "0x3c"] by (simp add: w)
  have k: "\<exists>s' es. feed MidiDevice_CheckChannel (MidiStreamParser 0 0 0)
      [0xe0, 0x00, 0x40, 0x3c, 0x40] = Inr (s', es, [0, 0, 0xe0, 0, 0xe0])"
    using return_value[OF r d(3) d(2) d(1) d(2), where st = "0xe0"] by simp
  have m: "\<exists>s' es. feed MidiDevice_CheckChannel (MidiStreamParser 0 0 0) [0xc5, 0x00, 0x40] =
      Inr (s', es, [0, 0xc5, 0xc5])"
    using return_value[OF r d(3) d(2) d(1) d(2), where st = "0xc5"] by simp
  have n: "(\<exists>s' es. feed MidiDevice_CheckChannel (MidiStreamParser 0 0 0) [0xf0, 0x00, 0x40] =
      Inr (s', es, [0, 0xf0, 0xf0])) \<and>
     (\<exists>s' es. feed MidiDevice_CheckChannel (MidiStreamParser 0 0 0) [0xf6, 0x00] =
      Inr (s', es, [0xf6, 0]))"
    using return_value[OF r d(3) d(2) d(1) d(2)] by blast
  from r d a b c e rn f rs g h k m n show ?thesis by blast
qed

text \<open>
  C6. A status byte from \<open>0x80\<close> to \<open>0xf7\<close> that arrives while the running status is
  \<open>0xf0\<close> makes the call \<open>SysExEnd()\<close> before anything else. For a device that accepts
  channel 0, as \<open>MidiDevice\<close> does, the bytes \<open>F0 01 90 3C 40\<close> pushed into a parser as
  constructed make the calls \<open>SysExStart()\<close>, \<open>SysExByte(1)\<close>, \<open>SysExEnd()\<close>,
  \<open>NoteOn(0, 60, 64)\<close>.
\<close>

theorem implicit_sysex_end:
  "(running_status s = 0xf0 \<and> 0x80 \<le> byte \<and> byte < 0xf8 \<longrightarrow>
      (\<exists>s' e v. PushByte chk s byte = Inr (s', SysExEnd # e, v))) \<and>
   (chk 0 \<noteq> 0 \<longrightarrow>
      feed chk (MidiStreamParser m0 m1 m2) [0xf0, 0x01, 0x90, 0x3c, 0x40] =
        Inr (\<lparr>running_status = 0x90, data = [0x3c, 0x40, m2], data_size = 0,
               expected_data_size = 2\<rparr>,
             [SysExStart, SysExByte 1, SysExEnd, NoteOn 0 60 64],
             [0, 0xf0, 0, 0, 0x90]))"
proof -
  have "\<exists>s' e v. PushByte chk s byte = Inr (s', SysExEnd # e, v)"
    if "running_status s = 0xf0" "0x80 \<le> byte" "byte < 0xf8"
    using that status_class[OF that(2,3)]
    by (auto simp: PushByte_def status_byte_def complete_def Let_def)
  moreover have "feed chk (MidiStreamParser m0 m1 m2) [0xf0, 0x01, 0x90, 0x3c, 0x40] =
        Inr (\<lparr>running_status = 0x90, data = [0x3c, 0x40, m2], data_size = 0,
               expected_data_size = 2\<rparr>,
             [SysExStart, SysExByte 1, SysExEnd, NoteOn 0 60 64],
             [0, 0xf0, 0, 0, 0x90])" if "chk 0 \<noteq> 0"
    using that by (simp add: eval_defs)
  ultimately show ?thesis by blast
qed

theorem implicit_sysex_end_witness:
  "running_status
     \<lparr>running_status = 0xf0, data = [1, 0, 0], data_size = 0, expected_data_size = 1\<rparr> = 0xf0 \<and>
   (0x80 :: u8) \<le> 0x90 \<and> (0x90 :: u8) < 0xf8 \<and>
   (\<exists>s' e v. PushByte MidiDevice_CheckChannel
      \<lparr>running_status = 0xf0, data = [1, 0, 0], data_size = 0, expected_data_size = 1\<rparr> 0x90 =
        Inr (s', SysExEnd # e, v)) \<and>
   MidiDevice_CheckChannel 0 \<noteq> 0 \<and>
   feed MidiDevice_CheckChannel (MidiStreamParser 0 0 0) [0xf0, 0x01, 0x90, 0x3c, 0x40] =
        Inr (\<lparr>running_status = 0x90, data = [0x3c, 0x40, 0], data_size = 0,
               expected_data_size = 2\<rparr>,
             [SysExStart, SysExByte 1, SysExEnd, NoteOn 0 60 64],
             [0, 0xf0, 0, 0, 0x90])"
  using implicit_sysex_end[of
      "\<lparr>running_status = 0xf0, data = [1, 0, 0], data_size = 0, expected_data_size = 1\<rparr>"
      "0x90" MidiDevice_CheckChannel 0 0 0]
  by (simp add: MidiDevice_CheckChannel_def)

text \<open>
  C7. For a device that accepts the channel, a status byte \<open>0x9n\<close> and two data bytes,
  pushed in a reachable state, make the call \<open>NoteOn(n, d0, d1)\<close> when \<open>d1\<close> is not 0
  and \<open>NoteOff(n, d0, 0)\<close> when it is; two more data bytes with no status byte are
  decoded in the same way under the running status. An unfinished System Exclusive
  message is ended first. With \<open>MidiDevice\<close> the bytes \<open>90 3C 40 3C 00\<close> pushed into a
  parser as constructed make the calls \<open>NoteOn(0, 60, 64)\<close>, \<open>NoteOff(0, 60, 0)\<close>.
\<close>

theorem note_on_zero_velocity:
  assumes "reachable chk s" and "st AND 0xf0 = 0x90" and "chk (st AND 0x0f) \<noteq> 0"
    and "d0 < 0x80" and "d1 < 0x80" and "d2 < 0x80" and "d3 < 0x80"
  shows "\<exists>s'. feed chk s [st, d0, d1, d2, d3] =
           Inr (s', (if running_status s = 0xf0 then [SysExEnd] else []) @
                    (if d1 \<noteq> 0 then [NoteOn (st AND 0x0f) d0 d1]
                     else [NoteOff (st AND 0x0f) d0 0]) @
                    (if d3 \<noteq> 0 then [NoteOn (st AND 0x0f) d2 d3]
                     else [NoteOff (st AND 0x0f) d2 0]),
                [0, 0, st, 0, st])"
proof -
  have l: "length (data s) = 3" using reachable_inv[OF assms(1)] by (simp add: parser_inv_def)
  note st = note_status[OF assms(2)]
  have n: "status_data_size (st AND 0xf0) (st AND 0x0f) = 2"
    using assms(2) by (simp add: status_data_size_def)
  note d = data_byte_class[OF assms(4)] data_byte_class[OF assms(5)]
    data_byte_class[OF assms(6)] data_byte_class[OF assms(7)]
  have m: "MessageReceived chk t st =
      (if data t ! 1 \<noteq> 0 then [NoteOn (st AND 0x0f) (data t ! 0) (data t ! 1)]
       else [NoteOff (st AND 0x0f) (data t ! 0) 0])" for t
    using assms(2,3) st by (simp add: MessageReceived_def dispatch_def)
  have w: "\<not> (2::u8) \<le> 1" by (simp add: word_le_nat_alt)
  show ?thesis
    using l st n d m w
    by (simp add: PushByte_def status_byte_def data_byte_def complete_def Let_def)
qed

theorem note_on_zero_velocity_witness:
  "reachable MidiDevice_CheckChannel (MidiStreamParser 0 0 0) \<and>
   (0x90 :: u8) AND 0xf0 = 0x90 \<and> MidiDevice_CheckChannel (0x90 AND 0x0f) \<noteq> 0 \<and>
   (0x3c :: u8) < 0x80 \<and> (0x40 :: u8) < 0x80 \<and> (0x00 :: u8) < 0x80 \<and>
   (\<exists>s'. feed MidiDevice_CheckChannel (MidiStreamParser 0 0 0) [0x90, 0x3c, 0x40, 0x3c, 0x00] =
      Inr (s', [NoteOn 0 60 64, NoteOff 0 60 0], [0, 0, 0x90, 0, 0x90]))"
proof -
  have r: "reachable MidiDevice_CheckChannel (MidiStreamParser 0 0 0)" by (rule constructed)
  have h: "(0x90 :: u8) AND 0xf0 = 0x90" by simp
  have c: "MidiDevice_CheckChannel (0x90 AND 0x0f) \<noteq> 0" by (simp add: MidiDevice_CheckChannel_def)
  have d: "(0x3c :: u8) < 0x80" "(0x40 :: u8) < 0x80" "(0x00 :: u8) < 0x80" by simp_all
  show ?thesis using r h c d note_on_zero_velocity[OF r h c d(1) d(2) d(1) d(3)]
    by (simp add: MidiStreamParser_def)
qed

text \<open>
  C8. In a reachable state with running status 0, pushing a data byte (below \<open>0x80\<close>)
  returns 0 and makes the one call \<open>BozoByte(byte)\<close>; the byte is stored in \<open>data_[0]\<close>
  and the running status and both counts are after the call what they were before it
  (both counts are 0).
\<close>

theorem orphan_data_byte:
  assumes "reachable chk s" and "running_status s = 0" and "byte < 0x80"
  shows "PushByte chk s byte = Inr (s\<lparr>data := (data s)[0 := byte]\<rparr>, [BozoByte byte], 0) \<and>
         data_size s = 0 \<and> expected_data_size s = 0"
  using inv_orphan[OF reachable_inv[OF assms(1)] assms(2,3)] .

theorem orphan_data_byte_witness:
  "reachable MidiDevice_CheckChannel (MidiStreamParser 0 0 0) \<and>
   running_status (MidiStreamParser 0 0 0) = 0 \<and> (0x40 :: u8) < 0x80 \<and>
   PushByte MidiDevice_CheckChannel (MidiStreamParser 0 0 0) 0x40 =
     Inr (\<lparr>running_status = 0, data = [0x40, 0, 0], data_size = 0, expected_data_size = 0\<rparr>,
          [BozoByte 0x40], 0)"
proof -
  have r: "reachable MidiDevice_CheckChannel (MidiStreamParser 0 0 0)" by (rule constructed)
  have z: "running_status (MidiStreamParser 0 0 0) = 0" by (simp add: MidiStreamParser_def)
  have b: "(0x40 :: u8) < 0x80" by simp
  show ?thesis using r z b orphan_data_byte[OF r z b] by (simp add: MidiStreamParser_def)
qed

text \<open>
  C9. In a reachable state whose running status is a channel status (not 0, high nibble
  not \<open>0xf0\<close>) on a channel that \<open>CheckChannel\<close> rejects, a data byte makes no callback,
  whether it completes the message or not. The state and the value the call returns are
  those that any other \<open>CheckChannel\<close> gives, and so are the states and values of every
  stream that follows.
\<close>

theorem rejected_channel:
  assumes "reachable chk s" and "running_status s \<noteq> 0" and "running_status s AND 0xf0 \<noteq> 0xf0"
    and "chk (running_status s AND 0x0f) = 0" and "byte < 0x80"
  shows "\<exists>s' v. PushByte chk s byte = Inr (s', [], v) \<and>
           (\<forall>chk'. (\<exists>e'. PushByte chk' s byte = Inr (s', e', v)) \<and>
              (\<forall>bs. \<exists>s'' es es' vs. feed chk s' bs = Inr (s'', es, vs) \<and>
                                   feed chk' s' bs = Inr (s'', es', vs)))"
proof -
  from inv_PushByte[OF reachable_inv[OF assms(1)], of chk byte]
  obtain s' e v where p: "PushByte chk s byte = Inr (s', e, v)" by blast
  note nb = data_byte_class[OF assms(5)]
  have "e = []" using p nb assms(2,3,4)
    by (auto simp: PushByte_def data_byte_def complete_def MessageReceived_def Let_def
        split: if_splits)
  with p have p': "PushByte chk s byte = Inr (s', [], v)" by simp
  have r': "reachable chk s'" by (rule pushed[OF assms(1) p])
  have "\<exists>s'' es es' vs. feed chk s' bs = Inr (s'', es, vs) \<and> feed chk' s' bs = Inr (s'', es', vs)"
    for chk' bs
  proof -
    from reachable_feed[OF r', of bs] obtain s'' es vs where f: "feed chk s' bs = Inr (s'', es, vs)"
      by blast
    from feed_chk_indep[OF f, of chk'] f show ?thesis by blast
  qed
  then show ?thesis using p' PushByte_chk_indep[OF p'] by blast
qed

theorem rejected_channel_witness:
  "reachable (\<lambda>channel. 0)
     \<lparr>running_status = 0x90, data = [0x3c, 0, 0], data_size = 1, expected_data_size = 2\<rparr> \<and>
   running_status
     \<lparr>running_status = 0x90, data = [0x3c, 0, 0], data_size = 1, expected_data_size = 2\<rparr> \<noteq> 0 \<and>
   running_status
     \<lparr>running_status = 0x90, data = [0x3c, 0, 0], data_size = 1, expected_data_size = 2\<rparr>
       AND 0xf0 \<noteq> 0xf0 \<and>
   (0x40 :: u8) < 0x80 \<and>
   PushByte (\<lambda>channel. 0)
     \<lparr>running_status = 0x90, data = [0x3c, 0, 0], data_size = 1, expected_data_size = 2\<rparr> 0x40 =
     Inr (\<lparr>running_status = 0x90, data = [0x3c, 0x40, 0], data_size = 0, expected_data_size = 2\<rparr>,
          [], 0x90) \<and>
   PushByte MidiDevice_CheckChannel
     \<lparr>running_status = 0x90, data = [0x3c, 0, 0], data_size = 1, expected_data_size = 2\<rparr> 0x40 =
     Inr (\<lparr>running_status = 0x90, data = [0x3c, 0x40, 0], data_size = 0, expected_data_size = 2\<rparr>,
          [NoteOn 0 60 64], 0x90)"
proof -
  have r: "reachable (\<lambda>channel. 0)
     \<lparr>running_status = 0x90, data = [0x3c, 0, 0], data_size = 1, expected_data_size = 2\<rparr>"
    by (rule reachable_note)
  have b: "(0x40 :: u8) < 0x80" by simp
  show ?thesis
    using r b rejected_channel[OF r _ _ _ b] by (simp add: eval_defs)
qed

text \<open>
  C10. In every reachable state the received count is at most the expected count, which
  is at most 2; so the index of the write \<open>data_[data_size_++]\<close> is inside the array of
  three cells, and a call of \<open>PushByte\<close> returns for every byte.
\<close>

theorem data_write_in_bounds:
  assumes "reachable chk s"
  shows "data_size s \<le> expected_data_size s \<and> expected_data_size s \<le> 2 \<and>
     length (data s) = 3 \<and> unat (data_size s) < length (data s) \<and>
     (\<forall>byte. \<exists>s' e v. PushByte chk s byte = Inr (s', e, v))"
proof -
  have i: "parser_inv s" using assms by (rule reachable_inv)
  have "data_size s \<le> expected_data_size s" using i by (auto simp: parser_inv_def)
  moreover have "expected_data_size s \<le> 2" "length (data s) = 3"
    using i by (auto simp: parser_inv_def)
  moreover have "unat (data_size s) < length (data s)"
    using inv_data_size[OF i] i by (simp add: parser_inv_def)
  moreover have "\<exists>s' e v. PushByte chk s byte = Inr (s', e, v)" for byte
    using inv_PushByte[OF i, of chk byte] by blast
  ultimately show ?thesis by blast
qed

theorem data_write_in_bounds_witness:
  "reachable MidiDevice_CheckChannel (MidiStreamParser 0 0 0) \<and>
   data_size (MidiStreamParser 0 0 0) \<le> expected_data_size (MidiStreamParser 0 0 0) \<and>
   expected_data_size (MidiStreamParser 0 0 0) \<le> 2 \<and>
   unat (data_size (MidiStreamParser 0 0 0)) < length (data (MidiStreamParser 0 0 0)) \<and>
   (\<exists>s' e v. PushByte MidiDevice_CheckChannel (MidiStreamParser 0 0 0) 0x40 = Inr (s', e, v))"
proof -
  have r: "reachable MidiDevice_CheckChannel (MidiStreamParser 0 0 0)" by (rule constructed)
  show ?thesis using r data_write_in_bounds[OF r] by blast
qed

end
